theory Spec2Isabelle
  imports Complex_Main
begin

section \<open>The shared frame queue\<close>

text \<open>
  \<^verbatim>\<open>stream_manager.py\<close> creates one \<^verbatim>\<open>queue.Queue(maxsize=config.QUEUE_SIZE)\<close> in
  \<^verbatim>\<open>StreamManager.__init__\<close> and hands the same object to every \<^verbatim>\<open>VideoStream\<close>.
  The queue is the standard library's: a FIFO of items with a \<^verbatim>\<open>maxsize\<close>; a
  \<^verbatim>\<open>maxsize\<close> that is not positive means "no bound". Each method runs under the
  queue's own mutex, so a method call is one atomic step on the contents.
  The two exceptions of the module are values of \<open>py_error\<close>.
\<close>

datatype py_error = Full | Empty | ZeroDivisionError

record 'a py_queue =
  maxsize :: int
  items :: "'a list"

definition Queue :: "int \<Rightarrow> 'a py_queue" where
  "Queue n = \<lparr>maxsize = n, items = []\<rparr>"

definition qsize :: "'a py_queue \<Rightarrow> int" where
  "qsize q = int (length (items q))"

text \<open>
  \<^verbatim>\<open>put_nowait(item)\<close> raises \<^verbatim>\<open>queue.Full\<close> on a full queue
  (\<^verbatim>\<open>0 < maxsize <= qsize\<close>) and appends otherwise.
\<close>

definition put_nowait :: "'a py_queue \<Rightarrow> 'a \<Rightarrow> py_error + 'a py_queue" where
  "put_nowait q x =
     (if 0 < maxsize q \<and> maxsize q \<le> qsize q then Inl Full
      else Inr (q\<lparr>items := items q @ [x]\<rparr>))"

text \<open>\<^verbatim>\<open>get_nowait()\<close> raises \<^verbatim>\<open>queue.Empty\<close> on an empty queue and pops the oldest item otherwise.\<close>

definition get_nowait :: "'a py_queue \<Rightarrow> py_error + ('a \<times> 'a py_queue)" where
  "get_nowait q =
     (case items q of
        [] \<Rightarrow> Inl Empty
      | x # xs \<Rightarrow> Inr (x, q\<lparr>items := xs\<rparr>))"

text \<open>
  \<^verbatim>\<open>get(timeout=0.1)\<close> returns the oldest item at once when there is one. On an empty
  queue it waits; an item that a producer adds while it waits is a producer step that
  comes first in the schedule, so in the model the call on an empty queue is the call
  whose wait ran out: it raises \<^verbatim>\<open>queue.Empty\<close>.
\<close>

definition get_timeout :: "'a py_queue \<Rightarrow> py_error + ('a \<times> 'a py_queue)" where
  "get_timeout q = get_nowait q"

subsection \<open>The enqueue block of the capture loop\<close>

text \<open>
  Lines 129 to 138 of \<^verbatim>\<open>VideoStream._stream_loop\<close>:
  \<^verbatim>\<open>
  try:
      self.frame_queue.put_nowait(frame_data)
  except queue.Full:
      try:
          self.frame_queue.get_nowait()
          self.frame_queue.put_nowait(frame_data)
      except queue.Empty:
          pass
  \<close>
  The inner handler catches \<^verbatim>\<open>queue.Empty\<close> only: a second \<^verbatim>\<open>queue.Full\<close> leaves the
  block as an exception (to the handler at the end of the loop body). The outcome says
  which path was taken.
\<close>

datatype enqueue_outcome = Inserted | EvictedOldest | NothingToEvict | StillFull

definition enqueue_block :: "'a py_queue \<Rightarrow> 'a \<Rightarrow> enqueue_outcome \<times> 'a py_queue" where
  "enqueue_block q x =
     (case put_nowait q x of
        Inr q' \<Rightarrow> (Inserted, q')
      | Inl _ \<Rightarrow>
          (case get_nowait q of
             Inl _ \<Rightarrow> (NothingToEvict, q)
           | Inr (old, q1) \<Rightarrow>
               (case put_nowait q1 x of
                  Inr q2 \<Rightarrow> (EvictedOldest, q2)
                | Inl _ \<Rightarrow> (StillFull, q1))))"

subsection \<open>Schedules of queue method calls\<close>

text \<open>
  Every thread touches the queue through its methods only, and each call is atomic, so
  what any interleaving of capture loops and consumer does to the queue is a sequence of
  method calls. A call that raises leaves the contents as they were.
\<close>

datatype 'a queue_call = PutNowait 'a | GetNowait | GetTimeout

fun queue_call_step :: "'a py_queue \<Rightarrow> 'a queue_call \<Rightarrow> 'a py_queue" where
  "queue_call_step q (PutNowait x) = (case put_nowait q x of Inl _ \<Rightarrow> q | Inr q' \<Rightarrow> q')"
| "queue_call_step q GetNowait = (case get_nowait q of Inl _ \<Rightarrow> q | Inr (_, q') \<Rightarrow> q')"
| "queue_call_step q GetTimeout = (case get_timeout q of Inl _ \<Rightarrow> q | Inr (_, q') \<Rightarrow> q')"

fun queue_calls :: "'a py_queue \<Rightarrow> 'a queue_call list \<Rightarrow> 'a py_queue" where
  "queue_calls q [] = q"
| "queue_calls q (c # cs) = queue_calls (queue_call_step q c) cs"

definition within_maxsize :: "'a py_queue \<Rightarrow> bool" where
  "within_maxsize q \<longleftrightarrow> qsize q \<le> maxsize q"

section \<open>Configuration\<close>

text \<open>
  The fields of \<^verbatim>\<open>config.Config\<close> that the modelled code reads. Each comes from the
  environment through \<^verbatim>\<open>int(os.getenv(...))\<close> or \<^verbatim>\<open>os.getenv(...)\<close>, so any integer
  and any (possibly missing) string can appear.
\<close>

record Config =
  QUEUE_SIZE :: int
  BATCH_SIZE :: int
  ALERT_COOLDOWN :: int
  MIN_VIOLATIONS_FOR_ALERT :: int
  TELEGRAM_BOT_TOKEN :: "string option"
  TELEGRAM_CHAT_ID :: "string option"

section \<open>The capture loop\<close>

text \<open>The dataclass \<^verbatim>\<open>StreamConfig\<close>.\<close>

record StreamConfig =
  url :: string
  name :: string
  enabled :: bool
  max_fps :: int
  reconnect_interval :: int
  buffer_size :: int

text \<open>
  The dictionary \<^verbatim>\<open>frame_data\<close> that the loop puts into the queue. \<open>'p\<close> is the
  image after \<^verbatim>\<open>cv2.resize\<close>, which is taken to return. Times are the seconds of
  \<^verbatim>\<open>time.time()\<close>, as rationals.
\<close>

record 'p frame_data =
  frame :: 'p
  stream_name :: string
  timestamp :: rat
  frame_number :: int

text \<open>\<^verbatim>\<open>int(x)\<close> on a float: truncation towards zero.\<close>

definition py_int :: "rat \<Rightarrow> int" where
  "py_int x = (if 0 \<le> x then \<lfloor>x\<rfloor> else \<lceil>x\<rceil>)"

text \<open>\<^verbatim>\<open>a / b\<close>: true division, \<^verbatim>\<open>ZeroDivisionError\<close> on a zero divisor.\<close>

definition truediv :: "rat \<Rightarrow> rat \<Rightarrow> py_error + rat" where
  "truediv a b = (if b = 0 then Inl ZeroDivisionError else Inr (a / b))"

text \<open>
  The fields of \<^verbatim>\<open>VideoStream\<close> that the loop reads and writes. \<^verbatim>\<open>__init__\<close>:
  \<^verbatim>\<open>
  self.last_frame_time = 0
  self.frame_interval = 1.0 / config.max_fps
  self.frame_skip = max(1, int(30 / config.max_fps))
  self.frame_count = 0
  \<close>
  Both divisions raise on \<^verbatim>\<open>max_fps = 0\<close>.
\<close>

record VideoStream =
  config :: StreamConfig
  last_frame_time :: rat
  frame_interval :: rat
  frame_skip :: int
  frame_count :: int

definition VideoStream_init :: "StreamConfig \<Rightarrow> py_error + VideoStream" where
  "VideoStream_init c =
     (case truediv 1 (of_int (max_fps c)) of
        Inl e \<Rightarrow> Inl e
      | Inr interval \<Rightarrow>
          (case truediv 30 (of_int (max_fps c)) of
             Inl e \<Rightarrow> Inl e
           | Inr ratio \<Rightarrow>
               Inr \<lparr>config = c, last_frame_time = 0, frame_interval = interval,
                    frame_skip = max 1 (py_int ratio), frame_count = 0\<rparr>))"

text \<open>
  What one pass of the loop body meets outside the program: whether \<^verbatim>\<open>self.cap\<close> is
  there and open, whether \<^verbatim>\<open>_connect()\<close> succeeds when it is called, the clock, and
  what \<^verbatim>\<open>self.cap.read()\<close> returns (\<open>None\<close> when \<^verbatim>\<open>ret\<close> is false).
\<close>

record 'p capture_env =
  cap_opened :: bool
  connect_ok :: bool
  current_time :: rat
  read_result :: "'p option"

datatype 'p iteration_outcome =
  NotConnected | ModuloByZero | FrameSkipped | Throttled | ReadFailed
  | Submitted enqueue_outcome "'p frame_data"

text \<open>
  One pass of the body of \<^verbatim>\<open>_stream_loop\<close> (lines 95 to 144). The counter advances
  before the skip test; \<^verbatim>\<open>frame_number\<close> is the counter; \<^verbatim>\<open>last_frame_time\<close> is set
  after the enqueue block unless that block left by an exception. An exception ends the
  pass in the handler of line 142: the \<^verbatim>\<open>queue.Full\<close> out of the enqueue block, and the
  \<^verbatim>\<open>ZeroDivisionError\<close> of the skip test should \<^verbatim>\<open>frame_skip\<close> be 0 (the constructor
  never sets it so).
\<close>

definition stream_iteration ::
  "VideoStream \<Rightarrow> 'p capture_env \<Rightarrow> 'p frame_data py_queue
     \<Rightarrow> 'p iteration_outcome \<times> VideoStream \<times> 'p frame_data py_queue" where
  "stream_iteration vs env q =
     (if \<not> cap_opened env \<and> \<not> connect_ok env then (NotConnected, vs, q)
      else
        let vs1 = vs\<lparr>frame_count := frame_count vs + 1\<rparr> in
        if frame_skip vs1 = 0 then (ModuloByZero, vs1, q)
        else if frame_count vs1 mod frame_skip vs1 \<noteq> 0 then (FrameSkipped, vs1, q)
        else if current_time env - last_frame_time vs1 < frame_interval vs1 then (Throttled, vs1, q)
        else
          (case read_result env of
             None \<Rightarrow> (ReadFailed, vs1, q)
           | Some img \<Rightarrow>
               let fd = \<lparr>frame = img, stream_name = name (config vs1),
                         timestamp = current_time env, frame_number = frame_count vs1\<rparr>
               in (case enqueue_block q fd of
                     (StillFull, q') \<Rightarrow> (Submitted StillFull fd, vs1, q')
                   | (out, q') \<Rightarrow>
                       (Submitted out fd, vs1\<lparr>last_frame_time := current_time env\<rparr>, q'))))"

text \<open>
  The loop, as long as \<^verbatim>\<open>self.running\<close> holds: one entry of the schedule per pass, made
  of the method calls other threads perform on the shared queue before the pass, and of
  what the pass meets. The result lists the outcome of every pass.
\<close>

fun stream_loop ::
  "VideoStream \<Rightarrow> 'p frame_data py_queue
     \<Rightarrow> ('p frame_data queue_call list \<times> 'p capture_env) list
     \<Rightarrow> 'p iteration_outcome list \<times> VideoStream \<times> 'p frame_data py_queue" where
  "stream_loop vs q [] = ([], vs, q)"
| "stream_loop vs q ((others, env) # rest) =
     (case stream_iteration vs env (queue_calls q others) of
        (out, vs', q') \<Rightarrow>
          (case stream_loop vs' q' rest of
             (outs, vs'', q'') \<Rightarrow> (out # outs, vs'', q'')))"

text \<open>The envelopes that a run of the loop has put into the queue, oldest first.\<close>

fun enqueued :: "'p iteration_outcome list \<Rightarrow> 'p frame_data list" where
  "enqueued [] = []"
| "enqueued (Submitted Inserted fd # outs) = fd # enqueued outs"
| "enqueued (Submitted EvictedOldest fd # outs) = fd # enqueued outs"
| "enqueued (_ # outs) = enqueued outs"

text \<open>The passes of a run in which the bus evicted an envelope.\<close>

fun evictions :: "'p iteration_outcome list \<Rightarrow> nat" where
  "evictions [] = 0"
| "evictions (Submitted EvictedOldest fd # outs) = Suc (evictions outs)"
| "evictions (_ # outs) = evictions outs"

text \<open>
  The ratio as the specification words it: \<open>round (native_fps / target_fps)\<close>, at
  least 1.
\<close>

definition spec_frame_skip :: "int \<Rightarrow> int \<Rightarrow> int" where
  "spec_frame_skip native_fps target_fps =
     max 1 (round (of_int native_fps / of_int target_fps :: rat))"

section \<open>The stream manager\<close>

text \<open>The counters of \<^verbatim>\<open>StreamManager.stats\<close> (the start time is left out: no counter depends on it).\<close>

record pipeline_stats =
  total_frames :: nat
  processed_frames :: nat
  dropped_frames :: nat

text \<open>
  The manager: the \<^verbatim>\<open>running\<close> flag, the shared queue, the registered callback and the
  counters. The callback is a function of the caller; the model knows of it only whether
  a call returns (\<open>True\<close>) or raises, and \<open>delivered\<close> lists the frames it was called on
  and returned for.
\<close>

record 'a StreamManager =
  running :: bool
  frame_queue :: "'a py_queue"
  frame_callback :: "('a \<Rightarrow> bool) option"
  stats :: pipeline_stats
  delivered :: "'a list"

definition StreamManager_init :: "Config \<Rightarrow> 'a StreamManager" where
  "StreamManager_init cfg =
     \<lparr>running = False,
      frame_queue = Queue (QUEUE_SIZE cfg),
      frame_callback = None,
      stats = \<lparr>total_frames = 0, processed_frames = 0, dropped_frames = 0\<rparr>,
      delivered = []\<rparr>"

definition set_frame_callback :: "'a StreamManager \<Rightarrow> ('a \<Rightarrow> bool) \<Rightarrow> 'a StreamManager" where
  "set_frame_callback m cb = m\<lparr>frame_callback := Some cb\<rparr>"

text \<open>\<^verbatim>\<open>start()\<close> and \<^verbatim>\<open>stop()\<close>, as far as the flag goes; both return at once when there is nothing to do.\<close>

definition StreamManager_start :: "'a StreamManager \<Rightarrow> 'a StreamManager" where
  "StreamManager_start m = (if running m then m else m\<lparr>running := True\<rparr>)"

definition StreamManager_stop :: "'a StreamManager \<Rightarrow> 'a StreamManager" where
  "StreamManager_stop m = (if \<not> running m then m else m\<lparr>running := False\<rparr>)"

text \<open>
  A capture loop holds the manager's queue and nothing else of the manager: its enqueue
  block acts on \<open>frame_queue\<close>.
\<close>

definition capture_enqueue :: "'a StreamManager \<Rightarrow> 'a \<Rightarrow> enqueue_outcome \<times> 'a StreamManager" where
  "capture_enqueue m x =
     (case enqueue_block (frame_queue m) x of
        (out, q') \<Rightarrow> (out, m\<lparr>frame_queue := q'\<rparr>))"

subsection \<open>The consumer\<close>

text \<open>
  \<^verbatim>\<open>_process_batch\<close>:
  \<^verbatim>\<open>
  try:
      if self.frame_callback:
          for frame_data in batch_frames:
              self.frame_callback(frame_data)
              self.stats['processed_frames'] += 1
  except Exception as e:
      self.stats['dropped_frames'] += len(batch_frames)
  \<close>
  \<open>callback_loop\<close> is the \<^verbatim>\<open>for\<close>; its flag is false when a call raised.
\<close>

fun callback_loop :: "('a \<Rightarrow> bool) \<Rightarrow> 'a StreamManager \<Rightarrow> 'a list \<Rightarrow> bool \<times> 'a StreamManager" where
  "callback_loop cb m [] = (True, m)"
| "callback_loop cb m (fd # fds) =
     (if cb fd
      then callback_loop cb
             (m\<lparr>stats := (stats m)\<lparr>processed_frames := processed_frames (stats m) + 1\<rparr>,
                delivered := delivered m @ [fd]\<rparr>) fds
      else (False, m))"

definition process_batch :: "'a StreamManager \<Rightarrow> 'a list \<Rightarrow> 'a StreamManager" where
  "process_batch m batch =
     (case frame_callback m of
        None \<Rightarrow> m
      | Some cb \<Rightarrow>
          (case callback_loop cb m batch of
             (True, m') \<Rightarrow> m'
           | (False, m') \<Rightarrow>
               m'\<lparr>stats := (stats m')\<lparr>dropped_frames := dropped_frames (stats m') + length batch\<rparr>\<rparr>))"

text \<open>
  The consumer thread: its local \<^verbatim>\<open>batch_frames\<close>, whether it has left
  \<^verbatim>\<open>_processing_loop\<close>, and the arguments of its calls of \<^verbatim>\<open>_process_batch\<close> so far.
\<close>

record 'a consumer =
  batch_frames :: "'a list"
  exited :: bool
  flushes :: "'a list list"

definition consumer_init :: "'a consumer" where
  "consumer_init = \<lparr>batch_frames = [], exited = False, flushes = []\<rparr>"

text \<open>
  One turn of the consumer: the test of \<^verbatim>\<open>while self.running\<close> and then either one pass
  of the body (lines 230 to 247) or the lines after the loop (249 to 251).
  \<^verbatim>\<open>
  try:
      frame_data = self.frame_queue.get(timeout=0.1)
  except queue.Empty:
      continue
  self.stats['total_frames'] += 1
  batch_frames.append(frame_data)
  if len(batch_frames) >= batch_size:
      self._process_batch(batch_frames)
      batch_frames = []
  \<close>
\<close>

definition processing_turn ::
  "Config \<Rightarrow> 'a StreamManager \<times> 'a consumer \<Rightarrow> 'a StreamManager \<times> 'a consumer" where
  "processing_turn cfg s =
     (case s of (m, c) \<Rightarrow>
        if exited c then (m, c)
        else if \<not> running m then
          (if batch_frames c \<noteq> []
           then (process_batch m (batch_frames c),
                 c\<lparr>exited := True, flushes := flushes c @ [batch_frames c]\<rparr>)
           else (m, c\<lparr>exited := True\<rparr>))
        else
          (case get_timeout (frame_queue m) of
             Inl _ \<Rightarrow> (m, c)
           | Inr (fd, q') \<Rightarrow>
               let m1 = m\<lparr>frame_queue := q',
                          stats := (stats m)\<lparr>total_frames := total_frames (stats m) + 1\<rparr>\<rparr>;
                   batch = batch_frames c @ [fd]
               in if BATCH_SIZE cfg \<le> int (length batch)
                  then (process_batch m1 batch, c\<lparr>batch_frames := [], flushes := flushes c @ [batch]\<rparr>)
                  else (m1, c\<lparr>batch_frames := batch\<rparr>)))"

text \<open>
  The manager after the consumer has taken \<open>n\<close> envelopes out of the queue, \<open>rest\<close>
  being what the queue still holds: each successful \<^verbatim>\<open>get\<close> is followed by
  \<^verbatim>\<open>self.stats['total_frames'] += 1\<close>.
\<close>

definition after_dequeues :: "'a StreamManager \<Rightarrow> 'a list \<Rightarrow> nat \<Rightarrow> 'a StreamManager" where
  "after_dequeues m rest n =
     m\<lparr>frame_queue := (frame_queue m)\<lparr>items := rest\<rparr>,
       stats := (stats m)\<lparr>total_frames := total_frames (stats m) + n\<rparr>\<rparr>"

section \<open>Alerts and reports\<close>

text \<open>
  The dictionary \<^verbatim>\<open>results\<close> that \<^verbatim>\<open>process_frame\<close> builds and hands to \<^verbatim>\<open>send_alert\<close>
  (the keys \<^verbatim>\<open>stream_name\<close>, \<^verbatim>\<open>timestamp\<close>, \<^verbatim>\<open>total_faces\<close> carry the prefix \<open>det_\<close>
  here, apart from the fields of the same name above).
\<close>

record detection_data =
  det_stream_name :: string
  det_timestamp :: rat
  det_total_faces :: nat
  mask_violations :: nat

text \<open>
  \<^verbatim>\<open>_should_send_alert\<close>:
  \<^verbatim>\<open>
  """Check if alert should be sent based on cooldown and violation count"""
  # This would implement alert cooldown logic
  # For now, always send alerts
  return True
  \<close>
\<close>

definition should_send_alert :: "detection_data \<Rightarrow> bool" where
  "should_send_alert d = True"

text \<open>Truth of an optional string: neither \<^verbatim>\<open>None\<close> nor empty.\<close>

definition truthy :: "string option \<Rightarrow> bool" where
  "truthy s = (case s of None \<Rightarrow> False | Some v \<Rightarrow> v \<noteq> [])"

datatype alert_status = skipped | sent

datatype notification = Telegram string | AlertRecord string | Mqtt string

text \<open>
  \<^verbatim>\<open>send_alert\<close>: the gate, then the three channels, each of which handles its own
  failures. The result is the \<^verbatim>\<open>status\<close> of the returned dictionary and the channels
  addressed, each with the source the alert is about.
\<close>

definition send_alert :: "Config \<Rightarrow> detection_data \<Rightarrow> alert_status \<times> notification list" where
  "send_alert cfg d =
     (if \<not> should_send_alert d then (skipped, [])
      else
        (sent,
         (if truthy (TELEGRAM_BOT_TOKEN cfg) \<and> truthy (TELEGRAM_CHAT_ID cfg)
          then [Telegram (det_stream_name d)] else [])
         @ [AlertRecord (det_stream_name d), Mqtt (det_stream_name d)]))"

text \<open>
  The policy as the specification words it: a result is eligible when its violation
  count reaches the minimum and the cooldown has passed since the last alert of its
  source (\<open>None\<close>: there has been none).
\<close>

definition spec_alert_eligible :: "Config \<Rightarrow> rat option \<Rightarrow> detection_data \<Rightarrow> bool" where
  "spec_alert_eligible cfg last_alert_at d =
     (MIN_VIOLATIONS_FOR_ALERT cfg \<le> int (mask_violations d)
      \<and> (case last_alert_at of
           None \<Rightarrow> True
         | Some t \<Rightarrow> of_int (ALERT_COOLDOWN cfg) \<le> det_timestamp d - t))"





section \<open>Example inputs\<close>

text \<open>The defaults of \<^verbatim>\<open>config.py\<close>, and a configuration with a queue for two envelopes.\<close>

definition cfg_default :: Config where
  "cfg_default = \<lparr>QUEUE_SIZE = 100, BATCH_SIZE = 10, ALERT_COOLDOWN = 300,
     MIN_VIOLATIONS_FOR_ALERT = 3, TELEGRAM_BOT_TOKEN = None, TELEGRAM_CHAT_ID = None\<rparr>"

definition cfg_two :: Config where
  "cfg_two = cfg_default\<lparr>QUEUE_SIZE := 2\<rparr>"

text \<open>
  A manager whose queue has room for one envelope, started, with one envelope put in by
  a capture loop.
\<close>

definition cfg_one :: Config where
  "cfg_one = cfg_default\<lparr>QUEUE_SIZE := 1\<rparr>"

definition manager_full :: "nat StreamManager" where
  "manager_full = snd (capture_enqueue (StreamManager_start (StreamManager_init cfg_one)) 1)"

text \<open>A camera at 15 frames per second, and four passes of its loop, ten seconds apart, each with a frame to read.\<close>

definition camera_15 :: StreamConfig where
  "camera_15 = \<lparr>url = ''rtsp://cam'', name = ''camera_0'', enabled = True, max_fps = 15,
     reconnect_interval = 5, buffer_size = 3\<rparr>"

definition stream_15 :: VideoStream where
  "stream_15 = \<lparr>config = camera_15, last_frame_time = 0, frame_interval = 1 / 15,
     frame_skip = 2, frame_count = 0\<rparr>"

definition pass_at :: "rat \<Rightarrow> nat frame_data queue_call list \<times> nat capture_env" where
  "pass_at t = ([], \<lparr>cap_opened = True, connect_ok = True, current_time = t, read_result = Some 0\<rparr>)"

definition four_passes :: "(nat frame_data queue_call list \<times> nat capture_env) list" where
  "four_passes = [pass_at 10, pass_at 20, pass_at 30, pass_at 40]"

text \<open>A camera at 8 frames per second.\<close>

definition camera_8 :: StreamConfig where
  "camera_8 = camera_15\<lparr>max_fps := 8\<rparr>"

text \<open>
  Three detection results of one camera with three violations each, at 0, 100 and 301
  seconds, and one with a single violation.
\<close>

definition result_at :: "rat \<Rightarrow> detection_data" where
  "result_at t = \<lparr>det_stream_name = ''camera_0'', det_timestamp = t, det_total_faces = 4,
     mask_violations = 3\<rparr>"

definition result_one_violation :: detection_data where
  "result_one_violation = (result_at 0)\<lparr>mask_violations := 1\<rparr>"




text \<open>
  A started manager with the default configuration and a callback that always returns,
  after capture loops have put in one envelope, and two.
\<close>

definition callback_ok :: "nat \<Rightarrow> bool" where
  "callback_ok fd = True"

definition manager_started :: "nat StreamManager" where
  "manager_started = StreamManager_start (set_frame_callback (StreamManager_init cfg_default) callback_ok)"

definition manager_one_frame :: "nat StreamManager" where
  "manager_one_frame = snd (capture_enqueue manager_started 1)"

definition manager_two_frames :: "nat StreamManager" where
  "manager_two_frames = snd (capture_enqueue manager_one_frame 2)"

text \<open>The same with a batch size of two, and the state after the consumer's first turn on two buffered envelopes.\<close>

definition cfg_batch_two :: Config where
  "cfg_batch_two = cfg_default\<lparr>BATCH_SIZE := 2\<rparr>"

definition manager_after_one_turn :: "nat StreamManager" where
  "manager_after_one_turn = fst (processing_turn cfg_default (manager_two_frames, consumer_init))"

definition consumer_after_one_turn :: "nat consumer" where
  "consumer_after_one_turn = snd (processing_turn cfg_default (manager_two_frames, consumer_init))"

section \<open>Properties of the queue\<close>

lemma put_nowait_within: "within_maxsize q \<Longrightarrow> 0 < maxsize q \<Longrightarrow> put_nowait q x = Inr q' \<Longrightarrow> within_maxsize q'"
  by (auto simp: put_nowait_def within_maxsize_def qsize_def split: if_splits)

lemma put_nowait_maxsize: "put_nowait q x = Inr q' \<Longrightarrow> maxsize q' = maxsize q"
  by (auto simp: put_nowait_def split: if_splits)

lemma get_nowait_within: "within_maxsize q \<Longrightarrow> get_nowait q = Inr (x, q') \<Longrightarrow> within_maxsize q'"
  by (auto simp: get_nowait_def within_maxsize_def qsize_def split: list.splits)

lemma get_nowait_maxsize: "get_nowait q = Inr (x, q') \<Longrightarrow> maxsize q' = maxsize q"
  by (auto simp: get_nowait_def split: list.splits)

lemma queue_call_step_maxsize: "maxsize (queue_call_step q c) = maxsize q"
  by (cases c)
    (auto simp: get_timeout_def split: sum.splits dest: put_nowait_maxsize get_nowait_maxsize)

lemma queue_call_step_within:
  assumes "within_maxsize q" and "0 < maxsize q"
  shows "within_maxsize (queue_call_step q c)"
proof (cases c)
  case (PutNowait x)
  with assms show ?thesis
    by (auto split: sum.splits dest: put_nowait_within)
next
  case GetNowait
  with assms show ?thesis
    by (auto split: sum.splits dest: get_nowait_within)
next
  case GetTimeout
  with assms show ?thesis
    by (auto simp: get_timeout_def split: sum.splits dest: get_nowait_within)
qed

lemma queue_calls_within:
  "within_maxsize q \<Longrightarrow> 0 < maxsize q \<Longrightarrow> within_maxsize (queue_calls q cs)"
proof (induction cs arbitrary: q)
  case Nil
  then show ?case by simp
next
  case (Cons c cs)
  have "within_maxsize (queue_call_step q c)"
    using Cons.prems by (rule queue_call_step_within)
  moreover have "0 < maxsize (queue_call_step q c)"
    using Cons.prems(2) by (simp add: queue_call_step_maxsize)
  ultimately show ?case
    using Cons.IH by simp
qed

lemma queue_calls_maxsize: "maxsize (queue_calls q cs) = maxsize q"
  by (induction cs arbitrary: q) (simp_all add: queue_call_step_maxsize)

text \<open>The enqueue block is itself a schedule of at most three method calls.\<close>

lemma enqueue_block_as_calls:
  "snd (enqueue_block q x) = queue_calls q [PutNowait x]
   \<or> snd (enqueue_block q x) = queue_calls q [PutNowait x, GetNowait]
   \<or> snd (enqueue_block q x) = queue_calls q [PutNowait x, GetNowait, PutNowait x]"
  by (auto simp: enqueue_block_def split: sum.splits prod.splits)


lemma enqueue_block_within:
  assumes "within_maxsize q" and "0 < maxsize q"
  shows "within_maxsize (snd (enqueue_block q x))"
  using enqueue_block_as_calls [of q x] queue_calls_within [OF assms] by metis

lemma enqueue_block_maxsize: "maxsize (snd (enqueue_block q x)) = maxsize q"
  using enqueue_block_as_calls [of q x] queue_calls_maxsize [of q] by metis

lemma enqueue_block_within':
  "enqueue_block q x = (out, q') \<Longrightarrow> within_maxsize q \<Longrightarrow> 0 < maxsize q \<Longrightarrow> within_maxsize q'"
  using enqueue_block_within [of q x] by simp

lemma enqueue_block_maxsize': "enqueue_block q x = (out, q') \<Longrightarrow> maxsize q' = maxsize q"
  using enqueue_block_maxsize [of q x] by simp

lemma stream_iteration_within:
  assumes "within_maxsize q" and "0 < maxsize q"
  shows "within_maxsize (snd (snd (stream_iteration vs env q)))"
  using assms
  by (auto simp: stream_iteration_def Let_def
      split: option.splits prod.splits enqueue_outcome.splits
      intro: enqueue_block_within')

lemma stream_iteration_maxsize: "maxsize (snd (snd (stream_iteration vs env q))) = maxsize q"
  by (auto simp: stream_iteration_def Let_def
      split: option.splits prod.splits enqueue_outcome.splits
      dest: enqueue_block_maxsize')

lemma stream_loop_within:
  "within_maxsize q \<Longrightarrow> 0 < maxsize q \<Longrightarrow> within_maxsize (snd (snd (stream_loop vs q sched)))"
proof (induction sched arbitrary: vs q)
  case Nil
  then show ?case by simp
next
  case (Cons entry sched)
  obtain others env where entry: "entry = (others, env)"
    by (cases entry)
  let ?q1 = "queue_calls q others"
  obtain out vs' q' where it: "stream_iteration vs env ?q1 = (out, vs', q')"
    by (cases "stream_iteration vs env ?q1")
  have q1: "within_maxsize ?q1" "0 < maxsize ?q1"
    using Cons.prems by (simp_all add: queue_calls_within queue_calls_maxsize)
  have "within_maxsize q'"
    using stream_iteration_within [OF q1, of vs env] it by simp
  moreover have "0 < maxsize q'"
    using stream_iteration_maxsize [of vs env ?q1] it q1(2) by simp
  ultimately have "within_maxsize (snd (snd (stream_loop vs' q' sched)))"
    by (rule Cons.IH)
  then show ?case
    using entry it by (cases "stream_loop vs' q' sched") simp
qed

lemma stream_loop_maxsize: "maxsize (snd (snd (stream_loop vs q sched))) = maxsize q"
proof (induction sched arbitrary: vs q)
  case Nil
  then show ?case by simp
next
  case (Cons entry sched)
  obtain others env where entry: "entry = (others, env)"
    by (cases entry)
  obtain out vs' q' where it: "stream_iteration vs env (queue_calls q others) = (out, vs', q')"
    by (cases "stream_iteration vs env (queue_calls q others)")
  have "maxsize q' = maxsize q"
    using stream_iteration_maxsize [of vs env "queue_calls q others"] it
    by (simp add: queue_calls_maxsize)
  then show ?case
    using entry it Cons.IH [of vs' q'] by (cases "stream_loop vs' q' sched") simp
qed

lemma Queue_within: "0 \<le> n \<Longrightarrow> within_maxsize (Queue n)"
  by (simp add: within_maxsize_def Queue_def qsize_def)

section \<open>The claims about the queue\<close>



text \<open>
  C3. Bounded memory: with a positive \<^verbatim>\<open>QUEUE_SIZE\<close> (the range the specification gives
  the option), the queue that \<^verbatim>\<open>StreamManager.__init__\<close> creates never holds more than
  \<^verbatim>\<open>QUEUE_SIZE\<close> envelopes: neither after any sequence of method calls of any threads,
  nor after any run of a capture loop between whose passes other threads call the queue
  as they like.
\<close>

theorem frame_queue_within_queue_size:
  assumes "0 < QUEUE_SIZE cfg"
  shows "qsize (queue_calls (frame_queue (StreamManager_init cfg)) calls) \<le> QUEUE_SIZE cfg
         \<and> qsize (snd (snd (stream_loop vs (frame_queue (StreamManager_init cfg)) sched)))
             \<le> QUEUE_SIZE cfg"
proof -
  let ?q = "Queue (QUEUE_SIZE cfg)"
  have q: "within_maxsize ?q" "0 < maxsize ?q"
    using assms by (simp_all add: Queue_within) (simp add: Queue_def)
  have "within_maxsize (queue_calls ?q calls)"
    using q by (rule queue_calls_within)
  moreover have "maxsize (queue_calls ?q calls) = QUEUE_SIZE cfg"
    by (simp add: queue_calls_maxsize Queue_def)
  ultimately have first: "qsize (queue_calls ?q calls) \<le> QUEUE_SIZE cfg"
    by (simp add: within_maxsize_def)
  have "within_maxsize (snd (snd (stream_loop vs ?q sched)))"
    using q by (rule stream_loop_within)
  moreover have "maxsize (snd (snd (stream_loop vs ?q sched))) = QUEUE_SIZE cfg"
    by (simp add: stream_loop_maxsize Queue_def)
  ultimately have "qsize (snd (snd (stream_loop vs ?q sched))) \<le> QUEUE_SIZE cfg"
    by (simp add: within_maxsize_def)
  with first show ?thesis
    by (simp add: StreamManager_init_def)
qed

theorem frame_queue_within_queue_size_witness:
  "0 < QUEUE_SIZE cfg_two
   \<and> qsize (queue_calls (frame_queue (StreamManager_init cfg_two))
        [PutNowait (1::nat), PutNowait 2, PutNowait 3]) \<le> 2
   \<and> qsize (snd (snd (stream_loop stream_15 (frame_queue (StreamManager_init cfg_two))
        four_passes))) \<le> 2"
  using frame_queue_within_queue_size
    [of cfg_two "[PutNowait (1::nat), PutNowait 2, PutNowait 3]" stream_15 four_passes]
  by (simp add: cfg_two_def cfg_default_def)

section \<open>The claims about the counters\<close>

lemma manager_full_eq:
  "manager_full =
     \<lparr>running = True, frame_queue = \<lparr>maxsize = 1, items = [1]\<rparr>, frame_callback = None,
      stats = \<lparr>total_frames = 0, processed_frames = 0, dropped_frames = 0\<rparr>, delivered = []\<rparr>"
  by (simp add: manager_full_def capture_enqueue_def enqueue_block_def put_nowait_def
      StreamManager_start_def StreamManager_init_def cfg_one_def cfg_default_def Queue_def qsize_def)

lemma capture_enqueue_manager_full:
  "capture_enqueue manager_full 2 =
     (EvictedOldest,
      \<lparr>running = True, frame_queue = \<lparr>maxsize = 1, items = [2]\<rparr>, frame_callback = None,
       stats = \<lparr>total_frames = 0, processed_frames = 0, dropped_frames = 0\<rparr>, delivered = []\<rparr>)"
  by (simp add: manager_full_eq capture_enqueue_def enqueue_block_def put_nowait_def
      get_nowait_def qsize_def)

text \<open>
  C4, as stated, fails: the enqueue into the full queue of \<open>manager_full\<close> evicts the
  oldest envelope, and \<^verbatim>\<open>dropped_frames\<close> is not one more than before.
\<close>

theorem eviction_not_counted_counterexample:
  "fst (capture_enqueue manager_full 2) = EvictedOldest
   \<and> dropped_frames (stats (snd (capture_enqueue manager_full 2)))
       \<noteq> dropped_frames (stats manager_full) + 1"
  by (simp add: capture_enqueue_manager_full)

text \<open>
  C4, amended. The capture loop holds the queue and no counter: whenever its enqueue
  block evicts the oldest envelope, every counter of the manager, \<^verbatim>\<open>dropped_frames\<close>
  among them, is what it was before. Evictions are not counted.
\<close>

theorem eviction_leaves_stats:
  assumes "fst (capture_enqueue m x) = EvictedOldest"
  shows "stats (snd (capture_enqueue m x)) = stats m
         \<and> dropped_frames (stats (snd (capture_enqueue m x))) = dropped_frames (stats m)"
  by (simp add: capture_enqueue_def split: prod.splits)

theorem eviction_leaves_stats_witness:
  "fst (capture_enqueue manager_full 2) = EvictedOldest
   \<and> dropped_frames (stats (snd (capture_enqueue manager_full 2))) = 0"
  using eviction_leaves_stats [of manager_full 2]
  by (simp add: capture_enqueue_manager_full)

section \<open>The claims about the frame-skip ratio and the compliance rate\<close>

lemma py_int_ratio: "m \<noteq> 0 \<Longrightarrow> max 1 (py_int (30 / of_int m)) = max 1 (30 div m)"
proof (cases "0 < m")
  case True
  then have "(0::rat) \<le> 30 / of_int m"
    by simp
  then have "py_int (30 / of_int m) = \<lfloor>(of_int 30 :: rat) / of_int m\<rfloor>"
    by (simp add: py_int_def)
  also have "\<dots> = 30 div m"
    by (rule floor_divide_of_int_eq)
  finally show ?thesis
    by simp
next
  case False
  assume "m \<noteq> 0"
  with False have neg: "m < 0"
    by simp
  then have "(30::rat) / of_int m < 0"
    by (simp add: divide_neg_pos divide_pos_neg)
  then have "py_int (30 / of_int m) = \<lceil>(30::rat) / of_int m\<rceil>" and "\<lceil>(30::rat) / of_int m\<rceil> \<le> 0"
    by (simp_all add: py_int_def)
  moreover from neg have "30 div m < 0"
    by (simp add: neg_imp_zdiv_neg_iff)
  ultimately show ?thesis
    by simp
qed

text \<open>
  C7, as stated, fails: at \<^verbatim>\<open>max_fps = 8\<close> the constructor sets \<^verbatim>\<open>frame_skip\<close> to 3,
  and 30 / 8 = 3.75 rounds to 4.
\<close>

theorem frame_skip_not_rounded_counterexample:
  "map_sum id frame_skip (VideoStream_init camera_8) = Inr 3
   \<and> spec_frame_skip 30 (max_fps camera_8) = 4"
  by code_simp

text \<open>
  C7, amended. The ratio is \<^verbatim>\<open>max(1, int(30 / max_fps))\<close>: the native rate is the
  constant 30 and the quotient is truncated, not rounded. For every configuration with
  \<^verbatim>\<open>max_fps\<close> other than 0 this is the integer quotient \<open>30 div max_fps\<close>, at least 1
  (so 1 for every negative \<^verbatim>\<open>max_fps\<close>); with \<^verbatim>\<open>max_fps = 0\<close> the constructor raises
  \<^verbatim>\<open>ZeroDivisionError\<close>.
\<close>

theorem frame_skip_truncated:
  "map_sum id frame_skip (VideoStream_init c) =
     (if max_fps c = 0 then Inl ZeroDivisionError else Inr (max 1 (30 div max_fps c)))"
  by (simp add: VideoStream_init_def truediv_def py_int_ratio)

theorem frame_skip_truncated_witness:
  "map_sum id frame_skip (VideoStream_init camera_15) = Inr 2
   \<and> map_sum id frame_skip (VideoStream_init (camera_15\<lparr>max_fps := 0\<rparr>)) = Inl ZeroDivisionError
   \<and> map_sum id frame_skip (VideoStream_init (camera_15\<lparr>max_fps := - 7\<rparr>)) = Inr 1"
  using frame_skip_truncated [of camera_15]
    frame_skip_truncated [of "camera_15\<lparr>max_fps := 0\<rparr>"]
    frame_skip_truncated [of "camera_15\<lparr>max_fps := - 7\<rparr>"]
  by (simp add: camera_15_def)



section \<open>The claim about the alert gate\<close>

text \<open>
  C1. The gate of the code lets every result through. With a cooldown of 300 seconds
  and a minimum of 3 violations, the results at 0, 100 and 301 seconds are all sent,
  the second one 100 seconds after the first, where the policy has it not eligible; and
  a result with one violation is sent as well.
\<close>

theorem send_alert_ignores_cooldown:
  "ALERT_COOLDOWN cfg_default = 300 \<and> MIN_VIOLATIONS_FOR_ALERT cfg_default = 3
   \<and> fst (send_alert cfg_default (result_at 0)) = sent
   \<and> fst (send_alert cfg_default (result_at 100)) = sent
   \<and> fst (send_alert cfg_default (result_at 301)) = sent
   \<and> \<not> spec_alert_eligible cfg_default (Some 0) (result_at 100)
   \<and> snd (send_alert cfg_default (result_at 100)) = [AlertRecord ''camera_0'', Mqtt ''camera_0'']
   \<and> fst (send_alert cfg_default result_one_violation) = sent
   \<and> \<not> spec_alert_eligible cfg_default None result_one_violation"
  by (simp add: send_alert_def should_send_alert_def spec_alert_eligible_def truthy_def
      cfg_default_def result_at_def result_one_violation_def)

section \<open>The claim about frame numbers\<close>

lemma stream_iteration_count:
  assumes "stream_iteration vs env q = (out, vs', q')"
  shows "frame_count vs \<le> frame_count vs'" and "frame_skip vs' = frame_skip vs"
    and "out = Submitted oc fd \<Longrightarrow>
           frame_number fd = frame_count vs' \<and> frame_count vs < frame_count vs'
           \<and> frame_skip vs dvd frame_number fd"
  using assms
  by (auto simp: stream_iteration_def Let_def
      split: if_splits option.splits prod.splits enqueue_outcome.splits)

lemma stream_loop_numbers:
  assumes "stream_loop vs q sched = (outs, vs', q')"
  shows "frame_count vs \<le> frame_count vs' \<and> frame_skip vs' = frame_skip vs
         \<and> sorted_wrt (<) (map frame_number (enqueued outs))
         \<and> (\<forall>fd \<in> set (enqueued outs).
               frame_count vs < frame_number fd \<and> frame_number fd \<le> frame_count vs'
               \<and> frame_skip vs dvd frame_number fd)"
  using assms
proof (induction sched arbitrary: vs q outs vs' q')
  case Nil
  then show ?case by simp
next
  case (Cons entry sched)
  obtain others env where entry: "entry = (others, env)"
    by (cases entry)
  obtain out vs1 q1 where it: "stream_iteration vs env (queue_calls q others) = (out, vs1, q1)"
    by (cases "stream_iteration vs env (queue_calls q others)")
  obtain outs1 vs2 q2 where rest: "stream_loop vs1 q1 sched = (outs1, vs2, q2)"
    by (cases "stream_loop vs1 q1 sched")
  from Cons.prems entry it rest have outs: "outs = out # outs1" and vs': "vs' = vs2"
    by simp_all
  note ih = Cons.IH [OF rest]
  note step = stream_iteration_count [OF it]
  have tail: "\<forall>fd \<in> set (enqueued outs1).
      frame_count vs < frame_number fd \<and> frame_number fd \<le> frame_count vs'
      \<and> frame_skip vs dvd frame_number fd"
    using ih step(1,2) vs' by auto
  show ?case
  proof (cases "\<exists>fd. out = Submitted Inserted fd \<or> out = Submitted EvictedOldest fd")
    case True
    then obtain fd where fd: "out = Submitted Inserted fd \<or> out = Submitted EvictedOldest fd"
      by blast
    then have enq: "enqueued outs = fd # enqueued outs1"
      using outs by auto
    from fd step(3) have n: "frame_number fd = frame_count vs1" "frame_count vs < frame_count vs1"
        "frame_skip vs dvd frame_number fd"
      by auto
    show ?thesis
      using enq n ih tail step(1,2) vs' by auto
  next
    case False
    then have "enqueued outs = enqueued outs1"
      using outs
      by (cases out; cases "case out of Submitted oc fd \<Rightarrow> oc | _ \<Rightarrow> Inserted") auto
    then show ?thesis
      using ih tail step(1,2) vs' by auto
  qed
qed

text \<open>
  C8, as stated, fails: the camera at 15 frames per second (\<^verbatim>\<open>frame_skip = 2\<close>) runs
  four passes into a queue with room for 100; the bus evicts nothing, and the two
  envelopes it enqueues, one after the other, carry the numbers 2 and 4.
\<close>

theorem frame_numbers_gap_counterexample:
  "VideoStream_init camera_15 = Inr stream_15
   \<and> map frame_number (enqueued (fst (stream_loop stream_15 (Queue 100) four_passes))) = [2, 4]
   \<and> evictions (fst (stream_loop stream_15 (Queue 100) four_passes)) = 0"
  by code_simp

text \<open>
  C8, amended. For every source and every run of its loop, whatever other threads do to
  the queue in between, the frame numbers of the envelopes it enqueues are strictly
  increasing. They are not gapless: the number is the loop's pass counter, which
  advances on every connected pass, also on the passes discarded by frame-skip, by the
  frame-interval gate or by a failed read. Every enqueued number lies above the counter
  at the start of the run, at most at the counter at its end, and is a multiple of
  \<^verbatim>\<open>frame_skip\<close>.
\<close>

theorem frame_numbers_strictly_increasing:
  "sorted_wrt (<) (map frame_number (enqueued (fst (stream_loop vs q sched))))
   \<and> (\<forall>fd \<in> set (enqueued (fst (stream_loop vs q sched))).
         frame_count vs < frame_number fd
         \<and> frame_number fd \<le> frame_count (fst (snd (stream_loop vs q sched)))
         \<and> frame_skip vs dvd frame_number fd)"
  using stream_loop_numbers [of vs q sched]
  by (cases "stream_loop vs q sched") simp

theorem frame_numbers_strictly_increasing_witness:
  "map frame_number (enqueued (fst (stream_loop stream_15 (Queue 100) four_passes))) = [2, 4]
   \<and> sorted_wrt (<) (map frame_number (enqueued (fst (stream_loop stream_15 (Queue 100) four_passes))))
   \<and> frame_count stream_15 < 2
   \<and> 4 \<le> frame_count (fst (snd (stream_loop stream_15 (Queue 100) four_passes)))
   \<and> frame_skip stream_15 dvd 4"
proof -
  have run: "map frame_number (enqueued (fst (stream_loop stream_15 (Queue 100) four_passes))) = [2, 4]"
    by code_simp
  then have "4 \<in> frame_number ` set (enqueued (fst (stream_loop stream_15 (Queue 100) four_passes)))"
    and "2 \<in> frame_number ` set (enqueued (fst (stream_loop stream_15 (Queue 100) four_passes)))"
    by (simp_all flip: set_map)
  then show ?thesis
    using run frame_numbers_strictly_increasing [of stream_15 "Queue 100" four_passes]
    by auto
qed

section \<open>The claims about the consumer\<close>

lemma callback_loop_frame_queue:
  "frame_queue (snd (callback_loop cb m fds)) = frame_queue m
   \<and> running (snd (callback_loop cb m fds)) = running m"
  by (induction fds arbitrary: m) simp_all

lemma process_batch_frame_queue:
  "frame_queue (process_batch m batch) = frame_queue m
   \<and> running (process_batch m batch) = running m"
proof (cases "frame_callback m")
  case None
  then show ?thesis by (simp add: process_batch_def)
next
  case (Some cb)
  obtain ok m' where r: "callback_loop cb m batch = (ok, m')"
    by (cases "callback_loop cb m batch")
  with callback_loop_frame_queue [of cb m batch]
  have "frame_queue m' = frame_queue m" and "running m' = running m"
    by simp_all
  with Some r show ?thesis
    by (cases ok) (simp_all add: process_batch_def)
qed

lemma processing_turn_exited: "exited c \<Longrightarrow> processing_turn cfg (m, c) = (m, c)"
  by (simp add: processing_turn_def)

lemma processing_turns_exited: "exited c \<Longrightarrow> (processing_turn cfg ^^ n) (m, c) = (m, c)"
  by (induction n) (simp_all add: processing_turn_exited)

lemma processing_turn_timeout:
  "running m \<Longrightarrow> \<not> exited c \<Longrightarrow> items (frame_queue m) = [] \<Longrightarrow>
     processing_turn cfg (m, c) = (m, c)"
  by (simp add: processing_turn_def get_timeout_def get_nowait_def)

lemma processing_turn_stopped:
  assumes "\<not> running m" and "\<not> exited c"
  shows "processing_turn cfg (m, c) =
           (if batch_frames c = [] then m else process_batch m (batch_frames c),
            c\<lparr>exited := True,
              flushes := flushes c @ (if batch_frames c = [] then [] else [batch_frames c])\<rparr>)"
  using assms by (simp add: processing_turn_def)

lemma processing_turn_get:
  assumes "running m" and "\<not> exited c" and "items (frame_queue m) = fd # rest"
  shows "processing_turn cfg (m, c) =
     (let m1 = after_dequeues m rest 1; batch = batch_frames c @ [fd]
      in if BATCH_SIZE cfg \<le> int (length batch)
         then (process_batch m1 batch, c\<lparr>batch_frames := [], flushes := flushes c @ [batch]\<rparr>)
         else (m1, c\<lparr>batch_frames := batch\<rparr>))"
  using assms
  by (simp add: processing_turn_def get_timeout_def get_nowait_def Let_def after_dequeues_def)

text \<open>As long as the batch stays below \<^verbatim>\<open>batch_size\<close>, every turn moves one envelope and flushes nothing.\<close>

lemma processing_turns_fill:
  assumes "running m" and "\<not> exited c" and "items (frame_queue m) = fs @ rest"
    and "int (length (batch_frames c) + length fs) < BATCH_SIZE cfg"
  shows "(processing_turn cfg ^^ length fs) (m, c) =
           (after_dequeues m rest (length fs), c\<lparr>batch_frames := batch_frames c @ fs\<rparr>)"
  using assms
proof (induction fs arbitrary: m c)
  case Nil
  then show ?case by (simp add: after_dequeues_def)
next
  case (Cons f fs)
  let ?m1 = "after_dequeues m (fs @ rest) 1"
  let ?c1 = "c\<lparr>batch_frames := batch_frames c @ [f]\<rparr>"
  have turn: "processing_turn cfg (m, c) = (?m1, ?c1)"
    using Cons.prems by (simp add: processing_turn_get [where rest = "fs @ rest"] Let_def)
  have "(processing_turn cfg ^^ length fs) (?m1, ?c1) =
          (after_dequeues ?m1 rest (length fs), ?c1\<lparr>batch_frames := batch_frames ?c1 @ fs\<rparr>)"
    using Cons.prems by (intro Cons.IH) (simp_all add: after_dequeues_def)
  moreover have "after_dequeues ?m1 rest (length fs) = after_dequeues m rest (length (f # fs))"
    by (simp add: after_dequeues_def)
  ultimately show ?case
    using turn by (simp add: funpow_swap1)
qed

text \<open>
  C5. The body of the loop answers a \<^verbatim>\<open>get\<close> that timed out with \<^verbatim>\<open>continue\<close>. With the
  default batch size of 10 and one envelope in the queue, the consumer's first turn takes
  the envelope into its batch, and the three turns after it time out on the empty queue:
  the batch is still there, no flush has happened and the callback has seen no frame.
\<close>

theorem timeout_does_not_flush:
  "BATCH_SIZE cfg_default = 10
   \<and> snd ((processing_turn cfg_default ^^ 4) (manager_one_frame, consumer_init))
       = \<lparr>batch_frames = [1], exited = False, flushes = []\<rparr>
   \<and> items (frame_queue (fst (processing_turn cfg_default (manager_one_frame, consumer_init)))) = []
   \<and> delivered (fst ((processing_turn cfg_default ^^ 4) (manager_one_frame, consumer_init))) = []"
  by code_simp

text \<open>
  C6. Flush by size: with a positive batch size, an empty accumulator and \<^verbatim>\<open>batch_size\<close>
  envelopes \<open>fs\<close> at the head of the queue, \<^verbatim>\<open>batch_size\<close> turns of the running consumer
  end in one call of \<^verbatim>\<open>_process_batch\<close>, on exactly \<open>fs\<close>, and leave the accumulator
  empty; no turn before the last one flushes.
\<close>

theorem batch_flush_by_size:
  assumes "running m" and "\<not> exited c" and "batch_frames c = []"
    and "items (frame_queue m) = fs @ rest" and "int (length fs) = BATCH_SIZE cfg"
    and "0 < BATCH_SIZE cfg"
  shows "(processing_turn cfg ^^ length fs) (m, c) =
           (process_batch (after_dequeues m rest (length fs)) fs,
            c\<lparr>batch_frames := [], flushes := flushes c @ [fs]\<rparr>)
         \<and> (\<forall>k < length fs. flushes (snd ((processing_turn cfg ^^ k) (m, c))) = flushes c)"
proof
  from assms have ne: "fs \<noteq> []"
    by auto
  define gs where "gs = butlast fs"
  define g where "g = last fs"
  have fs: "fs = gs @ [g]"
    using ne by (simp add: gs_def g_def)
  have part: "(processing_turn cfg ^^ length gs) (m, c) =
      (after_dequeues m (g # rest) (length gs), c\<lparr>batch_frames := batch_frames c @ gs\<rparr>)"
    using assms fs by (intro processing_turns_fill) simp_all
  have last: "processing_turn cfg
        (after_dequeues m (g # rest) (length gs), c\<lparr>batch_frames := batch_frames c @ gs\<rparr>)
      = (process_batch (after_dequeues m rest (length fs)) fs,
         c\<lparr>batch_frames := [], flushes := flushes c @ [fs]\<rparr>)"
    using assms fs
    by (simp add: processing_turn_get [where rest = rest and fd = g] Let_def after_dequeues_def)
  show "(processing_turn cfg ^^ length fs) (m, c) =
           (process_batch (after_dequeues m rest (length fs)) fs,
            c\<lparr>batch_frames := [], flushes := flushes c @ [fs]\<rparr>)"
    using part last fs by simp
  show "\<forall>k < length fs. flushes (snd ((processing_turn cfg ^^ k) (m, c))) = flushes c"
  proof (intro allI impI)
    fix k
    assume k: "k < length fs"
    have "items (frame_queue m) = take k fs @ (drop k fs @ rest)"
      using assms(4) by simp
    moreover have "int (length (batch_frames c) + length (take k fs)) < BATCH_SIZE cfg"
      using assms k by simp
    ultimately have "(processing_turn cfg ^^ length (take k fs)) (m, c) =
        (after_dequeues m (drop k fs @ rest) (length (take k fs)),
         c\<lparr>batch_frames := batch_frames c @ take k fs\<rparr>)"
      using assms(1,2) by (intro processing_turns_fill)
    then show "flushes (snd ((processing_turn cfg ^^ k) (m, c))) = flushes c"
      using k by (simp add: min_absorb2)
  qed
qed

theorem batch_flush_by_size_witness:
  "running manager_two_frames \<and> \<not> exited consumer_init \<and> batch_frames consumer_init = []
   \<and> items (frame_queue manager_two_frames) = [1, 2] @ []
   \<and> int (length [1, 2 :: nat]) = BATCH_SIZE cfg_batch_two \<and> 0 < BATCH_SIZE cfg_batch_two
   \<and> snd ((processing_turn cfg_batch_two ^^ 2) (manager_two_frames, consumer_init))
       = \<lparr>batch_frames = [], exited = False, flushes = [[1, 2]]\<rparr>
   \<and> flushes (snd ((processing_turn cfg_batch_two ^^ 1) (manager_two_frames, consumer_init))) = []"
proof -
  have h: "running manager_two_frames" "\<not> exited consumer_init" "batch_frames consumer_init = []"
    "items (frame_queue manager_two_frames) = [1, 2] @ []"
    "int (length [1, 2 :: nat]) = BATCH_SIZE cfg_batch_two" "0 < BATCH_SIZE cfg_batch_two"
    by code_simp+
  note t = batch_flush_by_size [OF h]
  have "snd ((processing_turn cfg_batch_two ^^ 2) (manager_two_frames, consumer_init))
      = \<lparr>batch_frames = [], exited = False, flushes = [[1, 2]]\<rparr>"
    using t [THEN conjunct1] by (simp add: consumer_init_def numeral_2_eq_2)
  moreover have "flushes (snd ((processing_turn cfg_batch_two ^^ 1) (manager_two_frames, consumer_init))) = []"
    using t [THEN conjunct2, rule_format, of 1] by (simp add: consumer_init_def)
  ultimately show ?thesis
    using h by simp
qed

text \<open>
  C9, as stated, fails: two envelopes are buffered in the queue when the pipeline is
  stopped; the consumer leaves its loop at its next turn, and after any further turns
  the two envelopes are still in the queue, nothing was flushed and the callback has
  seen no frame.
\<close>

theorem stop_leaves_queue_counterexample:
  "exited (snd ((processing_turn cfg_default ^^ 3) (StreamManager_stop manager_two_frames, consumer_init)))
   \<and> flushes (snd ((processing_turn cfg_default ^^ 3) (StreamManager_stop manager_two_frames, consumer_init))) = []
   \<and> items (frame_queue (fst ((processing_turn cfg_default ^^ 3)
        (StreamManager_stop manager_two_frames, consumer_init)))) = [1, 2]
   \<and> delivered (fst ((processing_turn cfg_default ^^ 3)
        (StreamManager_stop manager_two_frames, consumer_init))) = []"
  by code_simp

text \<open>
  C9, amended. When the pipeline is stopped, the consumer leaves its loop at its next
  turn and flushes what its accumulator holds, the remaining partial batch, in one call
  of \<^verbatim>\<open>_process_batch\<close> (none when the accumulator is empty). It takes nothing more out
  of the shared queue: the envelopes still buffered there stay there, whatever the
  number of turns.
\<close>

theorem stop_flushes_accumulator_only:
  assumes "running m" and "\<not> exited c"
  shows "(processing_turn cfg ^^ Suc n) (StreamManager_stop m, c) =
           (if batch_frames c = [] then StreamManager_stop m
            else process_batch (StreamManager_stop m) (batch_frames c),
            c\<lparr>exited := True,
              flushes := flushes c @ (if batch_frames c = [] then [] else [batch_frames c])\<rparr>)
         \<and> frame_queue (fst ((processing_turn cfg ^^ Suc n) (StreamManager_stop m, c)))
             = frame_queue m"
proof -
  let ?m = "StreamManager_stop m"
  let ?m' = "if batch_frames c = [] then ?m else process_batch ?m (batch_frames c)"
  let ?c' = "c\<lparr>exited := True,
      flushes := flushes c @ (if batch_frames c = [] then [] else [batch_frames c])\<rparr>"
  have stopped: "\<not> running ?m" and queue: "frame_queue ?m = frame_queue m"
    using assms(1) by (simp_all add: StreamManager_stop_def)
  have "processing_turn cfg (?m, c) = (?m', ?c')"
    using stopped assms(2) by (rule processing_turn_stopped)
  moreover have "(processing_turn cfg ^^ n) (?m', ?c') = (?m', ?c')"
    by (rule processing_turns_exited) simp
  ultimately have run: "(processing_turn cfg ^^ Suc n) (?m, c) = (?m', ?c')"
    by (simp add: funpow_swap1)
  moreover have "frame_queue ?m' = frame_queue m"
    using queue by (simp add: process_batch_frame_queue)
  ultimately show ?thesis
    by simp
qed

theorem stop_flushes_accumulator_only_witness:
  "running manager_after_one_turn \<and> \<not> exited consumer_after_one_turn
   \<and> batch_frames consumer_after_one_turn = [1]
   \<and> flushes (snd ((processing_turn cfg_default ^^ Suc 2)
        (StreamManager_stop manager_after_one_turn, consumer_after_one_turn))) = [[1]]
   \<and> items (frame_queue (fst ((processing_turn cfg_default ^^ Suc 2)
        (StreamManager_stop manager_after_one_turn, consumer_after_one_turn)))) = [2]"
proof -
  have h: "running manager_after_one_turn" "\<not> exited consumer_after_one_turn"
    by code_simp+
  have c: "batch_frames consumer_after_one_turn = [1]" "flushes consumer_after_one_turn = []"
    and q: "items (frame_queue manager_after_one_turn) = [2]"
    by code_simp+
  note t = stop_flushes_accumulator_only [OF h, where cfg = cfg_default and n = 2]
  have "flushes (snd ((processing_turn cfg_default ^^ Suc 2)
      (StreamManager_stop manager_after_one_turn, consumer_after_one_turn))) = [[1]]"
    using t [THEN conjunct1] c by simp
  moreover have "items (frame_queue (fst ((processing_turn cfg_default ^^ Suc 2)
      (StreamManager_stop manager_after_one_turn, consumer_after_one_turn)))) = [2]"
    using t [THEN conjunct2] q by simp
  ultimately show ?thesis
    using h c by simp
qed

end
